theory Spec2Isabelle
  imports Main "HOL-Library.Sublist" "HOL-Library.Char_ord" "HOL-Library.List_Lexorder"
begin

section \<open>Strings of the Go standard library\<close>

text \<open>
  A Go string is modelled as a \<^typ>\<open>string\<close>, one \<^typ>\<open>char\<close> per byte. The library
  functions below are the ones of package \<^verbatim>\<open>strings\<close> that the program calls, with the
  ASCII tables for white space and letter case: on ASCII text they compute what Go computes;
  a byte above 127 is an ordinary character here, neither white space nor a letter.
\<close>

definition isSpace :: "char \<Rightarrow> bool" where
  \<comment> \<open>tab, line feed, vertical tab, form feed, carriage return, space\<close>
  "isSpace c \<longleftrightarrow> c \<in> {CHR 0x09, CHR 0x0A, CHR 0x0B, CHR 0x0C, CHR 0x0D, CHR 0x20}"

definition TrimLeftFunc :: "string \<Rightarrow> (char \<Rightarrow> bool) \<Rightarrow> string" where
  "TrimLeftFunc s f = dropWhile f s"

definition TrimRightFunc :: "string \<Rightarrow> (char \<Rightarrow> bool) \<Rightarrow> string" where
  "TrimRightFunc s f = rev (dropWhile f (rev s))"

definition TrimSpace :: "string \<Rightarrow> string" where
  "TrimSpace s = TrimRightFunc (TrimLeftFunc s isSpace) isSpace"

definition TrimRight :: "string \<Rightarrow> string \<Rightarrow> string" where
  "TrimRight s cutset = TrimRightFunc s (\<lambda>c. c \<in> set cutset)"

function ReplaceAll :: "string \<Rightarrow> string \<Rightarrow> string \<Rightarrow> string" where
  "ReplaceAll s old new =
     (if old = [] then new @ concat (map (\<lambda>c. c # new) s)
      else case s of
             [] \<Rightarrow> []
           | c # cs \<Rightarrow>
               if prefix old s then new @ ReplaceAll (drop (length old) s) old new
               else c # ReplaceAll cs old new)"
  by pat_completeness auto
termination
  by (relation "measure (\<lambda>(s, old, new). length s)") auto

declare ReplaceAll.simps [simp del]

function splitFrom :: "string \<Rightarrow> string \<Rightarrow> string \<Rightarrow> string list" where
  \<comment> \<open>the pieces of \<open>s\<close> between occurrences of \<open>sep\<close>; \<open>acc\<close> is the current piece, reversed\<close>
  "splitFrom acc s sep =
     (case s of
        [] \<Rightarrow> [rev acc]
      | c # cs \<Rightarrow>
          if sep \<noteq> [] \<and> prefix sep s then rev acc # splitFrom [] (drop (length sep) s) sep
          else splitFrom (c # acc) cs sep)"
  by pat_completeness auto
termination
  by (relation "measure (\<lambda>(acc, s, sep). length s)") auto

declare splitFrom.simps [simp del]

definition Split :: "string \<Rightarrow> string \<Rightarrow> string list" where
  "Split s sep = (if sep = [] then map (\<lambda>c. [c]) s else splitFrom [] s sep)"

fun cutAt :: "string \<Rightarrow> string \<Rightarrow> string \<Rightarrow> string list" where
  \<comment> \<open>\<open>s\<close> cut at the first occurrence of \<open>sep\<close>: the text before it and the text after it\<close>
  "cutAt acc [] sep = [rev acc]"
| "cutAt acc (c # cs) sep =
     (if prefix sep (c # cs) then [rev acc, drop (length sep) (c # cs)]
      else cutAt (c # acc) cs sep)"

definition SplitN2 :: "string \<Rightarrow> string \<Rightarrow> string list" where
  \<comment> \<open>\<^verbatim>\<open>strings.SplitN(s, sep, 2)\<close> for a non-empty \<open>sep\<close>\<close>
  "SplitN2 s sep = cutAt [] s sep"

fun strings_Join :: "string list \<Rightarrow> string \<Rightarrow> string" where
  "strings_Join [] sep = []"
| "strings_Join [e] sep = e"
| "strings_Join (e # es) sep = e @ sep @ strings_Join es sep"

definition lowerChar :: "char \<Rightarrow> char" where
  "lowerChar c =
     (if CHR ''A'' \<le> c \<and> c \<le> CHR ''Z'' then char_of (of_char c + (32::nat)) else c)"

definition ToLower :: "string \<Rightarrow> string" where
  "ToLower s = map lowerChar s"

definition EqualFold :: "string \<Rightarrow> string \<Rightarrow> bool" where
  "EqualFold s t \<longleftrightarrow> ToLower s = ToLower t"

section \<open>The season and episode marker\<close>

text \<open>
  \<^verbatim>\<open>tvShowRegex\<close> is \<^verbatim>\<open>S\d{1,2}E\d{1,3}\<close>. Go's matcher returns the leftmost match and,
  there, prefers the longer repetition: two season digits before one, and as many episode
  digits as there are, up to three.
\<close>

definition isDigit :: "char \<Rightarrow> bool" where
  "isDigit c \<longleftrightarrow> CHR ''0'' \<le> c \<and> c \<le> CHR ''9''"

fun episodeDigits :: "string \<Rightarrow> string" where
  \<comment> \<open>\<^verbatim>\<open>\d{1,3}\<close> at the start of the text, empty when there is no digit\<close>
  "episodeDigits (a # b # c # r) =
     (if isDigit a then (if isDigit b then (if isDigit c then [a, b, c] else [a, b]) else [a])
      else [])"
| "episodeDigits [a, b] = (if isDigit a then (if isDigit b then [a, b] else [a]) else [])"
| "episodeDigits [a] = (if isDigit a then [a] else [])"
| "episodeDigits [] = []"

fun tvShowRegex_at :: "string \<Rightarrow> string option" where
  \<comment> \<open>the match of the expression that starts at the first character, if there is one\<close>
  "tvShowRegex_at (s # d1 # d2 # e # r) =
     (if s = CHR ''S'' \<and> isDigit d1 \<and> isDigit d2 \<and> e = CHR ''E'' \<and> episodeDigits r \<noteq> []
      then Some ([s, d1, d2, e] @ episodeDigits r)
      else if s = CHR ''S'' \<and> isDigit d1 \<and> d2 = CHR ''E'' \<and> episodeDigits (e # r) \<noteq> []
      then Some ([s, d1, d2] @ episodeDigits (e # r))
      else None)"
| "tvShowRegex_at _ = None"

fun FindString :: "string \<Rightarrow> string" where
  \<comment> \<open>\<^verbatim>\<open>tvShowRegex.FindString\<close>: the leftmost match, the empty string when there is none\<close>
  "FindString [] = []"
| "FindString (c # cs) =
     (case tvShowRegex_at (c # cs) of Some m \<Rightarrow> m | None \<Rightarrow> FindString cs)"

definition MatchString :: "string \<Rightarrow> bool" where
  "MatchString s \<longleftrightarrow> FindString s \<noteq> []"

section \<open>Name Sanitizer\<close>

definition invalidChars :: "char set" where
  \<comment> \<open>the character class of the regular expression in \<^verbatim>\<open>sanitizeFileName\<close>\<close>
  "invalidChars =
     {CHR ''<'', CHR ''>'', CHR '':'', CHR 0x22, CHR ''/'', CHR 0x5C, CHR ''|'', CHR ''?'',
      CHR ''*'', CHR ''['', CHR '']'', CHR ''#'', CHR ''%'', CHR ''&'', CHR ''{'', CHR ''}'',
      CHR ''$'', CHR ''!'', CHR 0x27, CHR ''+'', CHR ''='', CHR ''@'', CHR ''~'', CHR 0x60}"

definition invalidChars_ReplaceAllString :: "string \<Rightarrow> string \<Rightarrow> string" where
  \<comment> \<open>every character of the class is replaced by \<open>repl\<close>\<close>
  "invalidChars_ReplaceAllString name repl =
     concat (map (\<lambda>c. if c \<in> invalidChars then repl else [c]) name)"

definition sanitizeFileName :: "string \<Rightarrow> string" where
  "sanitizeFileName name =
     (let sanitized = TrimSpace (invalidChars_ReplaceAllString name ''_'');
          sanitized = TrimRight sanitized ''_.:'';
          sanitized = ReplaceAll sanitized ''..'' ''.'';
          sanitized = ReplaceAll sanitized ''.'' ''_'';
          sanitized = TrimRight sanitized '' ''
      in sanitized)"

definition normalizeName :: "string \<Rightarrow> string" where
  "normalizeName name =
     (let name = ReplaceAll name ''...'' [];
          name = ReplaceAll name ''..'' [];
          name = ReplaceAll name ''.'' '' ''
      in TrimSpace name)"

section \<open>Paths\<close>

text \<open>Package \<^verbatim>\<open>path/filepath\<close> with the separator \<^verbatim>\<open>/\<close>.\<close>

definition cleanStep :: "bool \<Rightarrow> string list \<Rightarrow> string \<Rightarrow> string list" where
  \<comment> \<open>one path element read by \<^verbatim>\<open>Clean\<close>; \<open>out\<close> holds the elements written so far\<close>
  "cleanStep rooted out e =
     (if e = [] \<or> e = ''.'' then out
      else if e = ''..'' then
        (if out \<noteq> [] \<and> last out \<noteq> ''..'' then butlast out
         else if \<not> rooted then out @ [''..'']
         else out)
      else out @ [e])"

definition Clean :: "string \<Rightarrow> string" where
  "Clean path =
     (if path = [] then ''.''
      else
        let rooted = (hd path = CHR ''/'');
            out = foldl (cleanStep rooted) [] (Split path ''/'');
            s = (if rooted then ''/'' else []) @ strings_Join out ''/''
        in if s = [] then ''.'' else s)"

definition Join :: "string list \<Rightarrow> string" where
  \<comment> \<open>\<^verbatim>\<open>filepath.Join\<close>: leading empty elements are dropped, the rest is joined and cleaned\<close>
  "Join elem =
     (let es = dropWhile (\<lambda>e. e = []) elem
      in if es = [] then [] else Clean (strings_Join es ''/''))"

definition Ext :: "string \<Rightarrow> string" where
  \<comment> \<open>the suffix from the last period of the last path element, empty when it has none\<close>
  "Ext path =
     (let r = rev path; t = takeWhile (\<lambda>c. c \<noteq> CHR ''.'' \<and> c \<noteq> CHR ''/'') r
      in case drop (length t) r of
           [] \<Rightarrow> []
         | c # _ \<Rightarrow> if c = CHR ''.'' then CHR ''.'' # rev t else [])"

section \<open>The file system\<close>

text \<open>
  The file system is a tree of directories and regular files; a stream file holds its URL.
  There are no symbolic links and no permissions, and the working directory is the root of
  the tree, so a relative path and the same path with a leading separator name the same node.
  The order of a directory's entries carries no meaning: \<open>ReadDir\<close> sorts them by name, as
  \<^verbatim>\<open>os.ReadDir\<close> and \<^verbatim>\<open>ioutil.ReadDir\<close> do.
\<close>

datatype node = File string | Dir "(string \<times> node) list"

datatype errno = ENOENT | ENOTDIR | EISDIR

fun IsDir :: "node \<Rightarrow> bool" where
  "IsDir (Dir _) = True"
| "IsDir (File _) = False"

definition resolve :: "string \<Rightarrow> string list" where
  \<comment> \<open>the names that lead from the root of the tree to the node a path denotes\<close>
  "resolve path =
     foldl (\<lambda>out e. if e = [] \<or> e = ''.'' then out
                     else if e = ''..'' then butlast out
                     else out @ [e])
       [] (Split path ''/'')"

fun lookup :: "string list \<Rightarrow> node \<Rightarrow> errno + node" where
  "lookup [] n = Inr n"
| "lookup (c # cs) (File _) = Inl ENOTDIR"
| "lookup (c # cs) (Dir es) =
     (case map_of es c of None \<Rightarrow> Inl ENOENT | Some n \<Rightarrow> lookup cs n)"

definition setEntry :: "string \<Rightarrow> node \<Rightarrow> (string \<times> node) list \<Rightarrow> (string \<times> node) list" where
  "setEntry c n es = map (\<lambda>(k, v). if k = c then (k, n) else (k, v)) es"

definition delEntry :: "string \<Rightarrow> (string \<times> node) list \<Rightarrow> (string \<times> node) list" where
  "delEntry c es = filter (\<lambda>(k, v). k \<noteq> c) es"

fun mkdirAll :: "string list \<Rightarrow> node \<Rightarrow> errno + node" where
  "mkdirAll cs (File x) = Inl ENOTDIR"
| "mkdirAll [] (Dir es) = Inr (Dir es)"
| "mkdirAll (c # cs) (Dir es) =
     (case map_of es c of
        None \<Rightarrow>
          (case mkdirAll cs (Dir []) of
             Inl e \<Rightarrow> Inl e
           | Inr n \<Rightarrow> Inr (Dir (es @ [(c, n)])))
      | Some d \<Rightarrow>
          (case mkdirAll cs d of
             Inl e \<Rightarrow> Inl e
           | Inr n \<Rightarrow> Inr (Dir (setEntry c n es))))"

fun create :: "string list \<Rightarrow> string \<Rightarrow> node \<Rightarrow> errno + node" where
  \<comment> \<open>\<^verbatim>\<open>os.Create\<close> followed by \<^verbatim>\<open>WriteString\<close>: the file is made or truncated, then written\<close>
  "create [] content (File x) = Inr (File content)"
| "create [] content (Dir es) = Inl EISDIR"
| "create (c # cs) content (File x) = Inl ENOTDIR"
| "create (c # cs) content (Dir es) =
     (case map_of es c of
        None \<Rightarrow> (if cs = [] then Inr (Dir (es @ [(c, File content)])) else Inl ENOENT)
      | Some d \<Rightarrow>
          (case create cs content d of
             Inl e \<Rightarrow> Inl e
           | Inr n \<Rightarrow> Inr (Dir (setEntry c n es))))"

fun put :: "string list \<Rightarrow> node option \<Rightarrow> node \<Rightarrow> node" where
  \<comment> \<open>the tree with the node at a position replaced (\<open>Some\<close>) or removed (\<open>None\<close>)\<close>
  "put [] r n = (case r of Some m \<Rightarrow> m | None \<Rightarrow> n)"
| "put (c # cs) r (File x) = File x"
| "put (c # cs) r (Dir es) =
     (if cs = [] \<and> r = None then Dir (delEntry c es)
      else Dir (map (\<lambda>(k, v). if k = c then (k, put cs r v) else (k, v)) es))"

definition Stat :: "string \<Rightarrow> node \<Rightarrow> errno + node" where
  "Stat path fs = (if path = [] then Inl ENOENT else lookup (resolve path) fs)"

definition MkdirAll :: "string \<Rightarrow> node \<Rightarrow> errno + node" where
  "MkdirAll path fs = (if path = [] then Inl ENOENT else mkdirAll (resolve path) fs)"

definition WriteFile :: "string \<Rightarrow> string \<Rightarrow> node \<Rightarrow> errno + node" where
  "WriteFile path content fs =
     (if path = [] then Inl ENOENT else create (resolve path) content fs)"

definition ReadDir :: "(string \<times> node) list \<Rightarrow> (string \<times> node) list" where
  "ReadDir es = sort_key fst es"

section \<open>The state of a run\<close>

record Stream =
  URL :: string
  TvgName :: string
  GroupTitle :: string

record Config =
  TvShowsDir :: string
  MoviesDir :: string
  LimitDelete :: int
  UseGroup :: int
  DefaultGroup :: string
  ExcludeGroup :: string
  IncludeGroup :: string

text \<open>The package-level variables that \<^verbatim>\<open>main\<close> sets from the configuration.\<close>

record globals =
  tvShowsDir :: string
  moviesDir :: string
  useGroup :: int
  defaultGroup :: string
  excludeGroups :: "string list"
  includeGroups :: "string list"

text \<open>What \<^verbatim>\<open>logMessage\<close> and \<^verbatim>\<open>logError\<close> are called with; debug lines are left out.\<close>

datatype msg =
    CreatingDirectory string
  | ErrorCreatingDirectory string
  | ErrorCreatingStrmFile string
  | InvalidTVShowNameFormat string
  | RemovingStrmFile string
  | RemovingEmptyDirectory string
  | DeletionLimitReached
  | ErrorAccessingPath string
  | GroupsOverlap

text \<open>
  The counters are the entries of the \<^verbatim>\<open>stats\<close> map; the package-level variables of the same
  names are incremented together with them and always hold the same numbers. \<open>deletions\<close> is
  the local variable of \<^verbatim>\<open>removeEmptyDirs\<close> that its walk function captures; it is set to
  zero whenever \<^verbatim>\<open>removeEmptyDirs\<close> is entered.
\<close>

record state =
  fs :: node
  keepFiles :: "string set"
  createdDirs :: int
  keptStrmFiles :: int
  removedStrmFiles :: int
  removedEmptyDirs :: int
  deletions :: int
  logged :: "msg list"

section \<open>Group Filter\<close>

definition contains :: "string list \<Rightarrow> string \<Rightarrow> bool" where
  "contains slice item =
     (let item = ToLower (TrimSpace item)
      in list_ex (\<lambda>s. EqualFold (TrimSpace s) item) slice)"

definition filterEmptyStrings :: "string list \<Rightarrow> string list" where
  "filterEmptyStrings slice = filter (\<lambda>str. str \<noteq> []) slice"

definition hasCommonElement :: "string list \<Rightarrow> string list \<Rightarrow> bool" where
  "hasCommonElement slice1 slice2 = list_ex (\<lambda>val. val \<in> set slice1) slice2"

section \<open>Path Builder and Tree Materializer\<close>

definition createOrUpdateStrmFile :: "string \<Rightarrow> string \<Rightarrow> state \<Rightarrow> state" where
  "createOrUpdateStrmFile filePath url st =
     (case WriteFile filePath url (fs st) of
        Inl e \<Rightarrow> st\<lparr>logged := logged st @ [ErrorCreatingStrmFile filePath]\<rparr>
      | Inr fs' \<Rightarrow> st\<lparr>fs := fs'\<rparr>)"

definition keepStrmFile :: "string \<Rightarrow> string \<Rightarrow> state \<Rightarrow> state" where
  \<comment> \<open>the last five statements of \<^verbatim>\<open>processTVShow\<close> and of \<^verbatim>\<open>processMovie\<close>\<close>
  "keepStrmFile strmFilePath url st =
     (let st = st\<lparr>keepFiles := insert strmFilePath (keepFiles st)\<rparr>;
          st = createOrUpdateStrmFile strmFilePath url st
      in st\<lparr>keptStrmFiles := keptStrmFiles st + 1\<rparr>)"

definition ensureDir :: "string \<Rightarrow> state \<Rightarrow> state option" where
  \<comment> \<open>the \<^verbatim>\<open>os.Stat\<close> and \<^verbatim>\<open>os.MkdirAll\<close> block of both functions; \<open>None\<close> is its early return\<close>
  "ensureDir dir st =
     (if Stat dir (fs st) = Inl ENOENT then
        (let st = st\<lparr>logged := logged st @ [CreatingDirectory dir]\<rparr>
         in case MkdirAll dir (fs st) of
              Inl e \<Rightarrow> None
            | Inr fs' \<Rightarrow> Some (st\<lparr>fs := fs', createdDirs := createdDirs st + 1\<rparr>))
      else Some st)"

definition showNameOf :: "string \<Rightarrow> string" where
  \<comment> \<open>the sanitized text before the first marker\<close>
  "showNameOf tvgName =
     sanitizeFileName (normalizeName (hd (SplitN2 tvgName (FindString tvgName))))"

definition seasonOf :: "string \<Rightarrow> string" where
  \<comment> \<open>\<^verbatim>\<open>seasonEpisode[:3]\<close>; a match has at least four characters\<close>
  "seasonOf tvgName = take 3 (FindString tvgName)"

definition showDirOf :: "globals \<Rightarrow> string \<Rightarrow> string \<Rightarrow> string \<Rightarrow> string" where
  "showDirOf G tvDir groupTitle tvgName =
     (if useGroup G = 1 then Join [tvDir, groupTitle, showNameOf tvgName, seasonOf tvgName]
      else Join [tvDir, showNameOf tvgName, seasonOf tvgName])"

definition movieDirOf :: "globals \<Rightarrow> string \<Rightarrow> string \<Rightarrow> string \<Rightarrow> string" where
  "movieDirOf G mvDir groupTitle tvgName =
     (if useGroup G = 1 then Join [mvDir, groupTitle, sanitizeFileName (normalizeName tvgName)]
      else Join [mvDir, sanitizeFileName (normalizeName tvgName)])"

definition strmFilePathOf :: "string \<Rightarrow> string \<Rightarrow> string" where
  "strmFilePathOf dir tvgName = Join [dir, sanitizeFileName (normalizeName tvgName) @ ''.strm'']"

definition processTVShow :: "globals \<Rightarrow> Stream \<Rightarrow> string \<Rightarrow> string \<Rightarrow> state \<Rightarrow> state" where
  "processTVShow G stream tvDir groupTitle st =
     (let parts = FindString (TvgName stream)
      in if parts = [] then st\<lparr>logged := logged st @ [InvalidTVShowNameFormat (TvgName stream)]\<rparr>
         else
           let showDir = showDirOf G tvDir groupTitle (TvgName stream)
           in case ensureDir showDir st of
                None \<Rightarrow> st\<lparr>logged := logged st @ [CreatingDirectory showDir, ErrorCreatingDirectory showDir]\<rparr>
              | Some st \<Rightarrow> keepStrmFile (strmFilePathOf showDir (TvgName stream)) (URL stream) st)"

definition processMovie :: "globals \<Rightarrow> Stream \<Rightarrow> string \<Rightarrow> string \<Rightarrow> state \<Rightarrow> state" where
  "processMovie G stream mvDir groupTitle st =
     (let movieDir = movieDirOf G mvDir groupTitle (TvgName stream)
      in case ensureDir movieDir st of
           None \<Rightarrow> st\<lparr>logged := logged st @ [CreatingDirectory movieDir, ErrorCreatingDirectory movieDir]\<rparr>
         | Some st \<Rightarrow> keepStrmFile (strmFilePathOf movieDir (TvgName stream)) (URL stream) st)"

definition groupTitleOf :: "globals \<Rightarrow> Stream \<Rightarrow> string" where
  "groupTitleOf G stream =
     (let groupTitle = ToLower (TrimSpace (GroupTitle stream))
      in if groupTitle = [] then defaultGroup G else groupTitle)"

definition processStream :: "globals \<Rightarrow> Stream \<Rightarrow> state \<Rightarrow> state" where
  \<comment> \<open>the body of the loop of \<^verbatim>\<open>processStreams\<close>\<close>
  "processStream G stream st =
     (let groupTitle = groupTitleOf G stream
      in if contains (excludeGroups G) groupTitle then st
         else if length (includeGroups G) > 0 \<and> \<not> contains (includeGroups G) groupTitle then st
         else if MatchString (TvgName stream) then processTVShow G stream (tvShowsDir G) groupTitle st
         else processMovie G stream (moviesDir G) groupTitle st)"

definition mkRoot :: "string \<Rightarrow> state \<Rightarrow> state" where
  \<comment> \<open>\<^verbatim>\<open>os.MkdirAll\<close> of a root directory, its error ignored\<close>
  "mkRoot dir st = (case MkdirAll dir (fs st) of Inl e \<Rightarrow> st | Inr fs' \<Rightarrow> st\<lparr>fs := fs'\<rparr>)"

definition processStreams :: "globals \<Rightarrow> Stream list \<Rightarrow> state \<Rightarrow> state" where
  "processStreams G streams st =
     fold (processStream G) streams (mkRoot (moviesDir G) (mkRoot (tvShowsDir G) st))"

section \<open>Tree Reconciler\<close>

text \<open>
  The function that \<^verbatim>\<open>removeEmptyDirs\<close> hands to \<^verbatim>\<open>filepath.WalkDir\<close> reads and changes only
  the directory it is called for: it lists \<open>path\<close>, removes entries \<open>Join [path, name]\<close> and
  may remove \<open>path\<close> itself. The walk therefore carries the directory at \<open>path\<close> along, and
  \<^verbatim>\<open>removeEmptyDirs\<close> stores the walked tree back at the root of the walk.
\<close>

fun fileLoop ::
  "string set \<Rightarrow> int \<Rightarrow> string \<Rightarrow> (string \<times> node) list \<Rightarrow> (string \<times> node) list \<Rightarrow> state
     \<Rightarrow> bool \<times> (string \<times> node) list \<times> state" where
  \<comment> \<open>the loop over \<open>files\<close>; \<open>cur\<close> is what the directory holds now. The result is \<open>True\<close> when
      the loop left with \<^verbatim>\<open>filepath.SkipDir\<close> because the limit was reached.\<close>
  "fileLoop ciKeepFiles limit path [] cur st = (False, cur, st)"
| "fileLoop ciKeepFiles limit path ((name, file) # files) cur st =
     (if deletions st \<ge> limit then (True, cur, st\<lparr>logged := logged st @ [DeletionLimitReached]\<rparr>)
      else
        let filePath = Join [path, name]
        in if \<not> IsDir file \<and> Ext name = ''.strm'' then
             (let lowerCaseFilePath = ToLower filePath
              in if lowerCaseFilePath \<notin> ciKeepFiles then
                   fileLoop ciKeepFiles limit path files (delEntry name cur)
                     (st\<lparr>logged := logged st @ [RemovingStrmFile filePath],
                         removedStrmFiles := removedStrmFiles st + 1,
                         deletions := deletions st + 1\<rparr>)
                 else fileLoop ciKeepFiles limit path files cur st)
           else fileLoop ciKeepFiles limit path files cur st)"

definition entriesBound :: "(string \<times> node) list \<Rightarrow> nat" where
  \<comment> \<open>a bound on the size of the nodes of a listing, the measure of the walk\<close>
  "entriesBound ds = Max (insert 0 ((\<lambda>e. Suc (size (snd e))) ` set ds))"

function
  walkDir :: "string set \<Rightarrow> int \<Rightarrow> string \<Rightarrow> string \<Rightarrow> node \<Rightarrow> state \<Rightarrow> node option \<times> state"
  and walkEntries ::
    "string set \<Rightarrow> int \<Rightarrow> string \<Rightarrow> string \<Rightarrow> (string \<times> node) list \<Rightarrow> state
       \<Rightarrow> (string \<times> node) list \<times> state"
where
  "walkDir ciKeepFiles limit rootDir path (File x) st = (Some (File x), st)"
| "walkDir ciKeepFiles limit rootDir path (Dir es) st =
     (case fileLoop ciKeepFiles limit path (ReadDir es) es st of
        (True, cur, st1) \<Rightarrow> (Some (Dir cur), st1)
      | (False, cur, st1) \<Rightarrow>
          if cur = [] \<and> path \<noteq> rootDir then
            (None, st1\<lparr>logged := logged st1 @ [RemovingEmptyDirectory path],
                       removedEmptyDirs := removedEmptyDirs st1 + 1\<rparr>)
          else
            (case walkEntries ciKeepFiles limit rootDir path (ReadDir cur) st1 of
               (cur', st2) \<Rightarrow> (Some (Dir cur'), st2)))"
| "walkEntries ciKeepFiles limit rootDir path [] st = ([], st)"
| "walkEntries ciKeepFiles limit rootDir path ((name, d1) # dirs) st =
     (case walkDir ciKeepFiles limit rootDir (Join [path, name]) d1 st of
        (r, st1) \<Rightarrow>
          (case walkEntries ciKeepFiles limit rootDir path dirs st1 of
             (rs, st2) \<Rightarrow> ((case r of None \<Rightarrow> rs | Some d \<Rightarrow> (name, d) # rs), st2)))"
  by pat_completeness auto
termination
proof (relation "inv_image (less_than <*lex*> less_than)
    (\<lambda>a. case a of
       Inl (K, l, r, p, n, st) \<Rightarrow> (2 * size n + 1, 0)
     | Inr (K, l, r, p, ds, st) \<Rightarrow> (2 * entriesBound ds, length ds))",
    goal_cases)
  case 1
  show ?case by (intro wf_inv_image wf_lex_prod wf_less_than)
next
  case (2 K l r p es st x y cur st1)
  have sub: "set cur' \<subseteq> set cur0" if "fileLoop K l p fs cur0 st0 = (b, cur', st')"
    for fs cur0 st0 b cur' st'
    using that
    by (induction K l p fs cur0 st0 rule: fileLoop.induct)
      (auto simp: Let_def delEntry_def split: if_splits)
  from 2 have "fileLoop K l p (ReadDir es) es st = (x, cur, st1)"
    by simp
  then have "set cur \<subseteq> set es"
    by (rule sub)
  then have "\<forall>e \<in> set (ReadDir cur). Suc (size (snd e)) \<le> size_list (size_prod (\<lambda>_. 0) size) es"
    by (auto simp: ReadDir_def intro!: size_list_estimation')
  then have "entriesBound (ReadDir cur) \<le> size_list (size_prod (\<lambda>_. 0) size) es"
    unfolding entriesBound_def by (intro Max.boundedI) auto
  then show ?case by simp
next
  case (3 K l r p name d1 dirs st)
  have "Suc (size d1) \<le> entriesBound ((name, d1) # dirs)"
    unfolding entriesBound_def by (intro Max_ge) auto
  then show ?case by simp
next
  case (4 K l r p name d1 dirs st x y)
  have "entriesBound dirs \<le> entriesBound ((name, d1) # dirs)"
    unfolding entriesBound_def by (intro Max_mono) auto
  then show ?case by auto
qed

definition removeEmptyDirs :: "string \<Rightarrow> int \<Rightarrow> state \<Rightarrow> state" where
  "removeEmptyDirs rootDir limit st =
     (let ciKeepFiles = ToLower ` keepFiles st;
          st = st\<lparr>deletions := 0\<rparr>
      in case Stat rootDir (fs st) of
           Inl e \<Rightarrow> st\<lparr>logged := logged st @ [ErrorAccessingPath rootDir]\<rparr>
         | Inr d \<Rightarrow>
             (case walkDir ciKeepFiles limit rootDir rootDir d st of
                (r, st') \<Rightarrow> st'\<lparr>fs := put (resolve rootDir) r (fs st)\<rparr>))"

section \<open>One run\<close>

definition initial :: "node \<Rightarrow> state" where
  "initial fs0 =
     \<lparr>fs = fs0, keepFiles = {}, createdDirs = 0, keptStrmFiles = 0, removedStrmFiles = 0,
      removedEmptyDirs = 0, deletions = 0, logged = []\<rparr>"

definition globalsOf :: "Config \<Rightarrow> globals" where
  \<comment> \<open>the assignments under \<^verbatim>\<open>Set configuration variables\<close> in \<^verbatim>\<open>main\<close>\<close>
  "globalsOf config =
     \<lparr>tvShowsDir = TvShowsDir config, moviesDir = MoviesDir config, useGroup = UseGroup config,
      defaultGroup = DefaultGroup config,
      excludeGroups =
        filterEmptyStrings (Split (ToLower (TrimSpace (ExcludeGroup config))) '',''),
      includeGroups =
        filterEmptyStrings (Split (ToLower (TrimSpace (IncludeGroup config))) '','')\<rparr>"

definition main :: "Config \<Rightarrow> Stream list \<Rightarrow> node \<Rightarrow> state" where
  \<comment> \<open>\<^verbatim>\<open>main\<close> from the point where the configuration is complete and the catalog is loaded\<close>
  "main config streams fs0 =
     (let G = globalsOf config
      in if hasCommonElement (excludeGroups G) (includeGroups G)
         then (initial fs0)\<lparr>logged := [GroupsOverlap]\<rparr>
         else
           let st = processStreams G streams (initial fs0);
               st = removeEmptyDirs (tvShowsDir G) (LimitDelete config) st;
               st = removeEmptyDirs (moviesDir G) (LimitDelete config) st
           in st)"

section \<open>What the claims speak of\<close>

text \<open>
  The classification that \<^verbatim>\<open>processStreams\<close> makes and the paths that \<^verbatim>\<open>processTVShow\<close> and
  \<^verbatim>\<open>processMovie\<close> build, as functions of a record.
\<close>

datatype kind = TVEpisode | Movie

definition kindOf :: "Stream \<Rightarrow> kind" where
  "kindOf stream = (if MatchString (TvgName stream) then TVEpisode else Movie)"

definition canonicalNameOf :: "Stream \<Rightarrow> string" where
  "canonicalNameOf stream =
     (if MatchString (TvgName stream) then showNameOf (TvgName stream)
      else sanitizeFileName (normalizeName (TvgName stream)))"

definition targetDir :: "globals \<Rightarrow> Stream \<Rightarrow> string" where
  "targetDir G stream =
     (if MatchString (TvgName stream)
      then showDirOf G (tvShowsDir G) (groupTitleOf G stream) (TvgName stream)
      else movieDirOf G (moviesDir G) (groupTitleOf G stream) (TvgName stream))"

definition targetFile :: "globals \<Rightarrow> Stream \<Rightarrow> string" where
  "targetFile G stream = strmFilePathOf (targetDir G stream) (TvgName stream)"

text \<open>
  The regular files below a directory, each with the path that the walk computes for it and
  with its content; and the directories in which no two entries have the same name.
\<close>

fun filesUnder :: "string \<Rightarrow> node \<Rightarrow> (string \<times> string) set" where
  "filesUnder path (File x) = {(path, x)}"
| "filesUnder path (Dir es) = (\<Union>e \<in> set es. filesUnder (Join [path, fst e]) (snd e))"

fun wellFormed :: "node \<Rightarrow> bool" where
  "wellFormed (File x) = True"
| "wellFormed (Dir es) = (distinct (map fst es) \<and> (\<forall>e \<in> set es. wellFormed (snd e)))"

text \<open>
  A directory without stale stream files: every regular file below it whose name has the
  extension of a stream file has, in lower case, the path of an entry of KeepSet.
\<close>

fun noStale :: "string set \<Rightarrow> string \<Rightarrow> node \<Rightarrow> bool" where
  "noStale ciKeepFiles path (File x) = True"
| "noStale ciKeepFiles path (Dir es) =
     (\<forall>e \<in> set es.
        (\<not> IsDir (snd e) \<and> Ext (fst e) = ''.strm'' \<longrightarrow>
           ToLower (Join [path, fst e]) \<in> ciKeepFiles) \<and>
        noStale ciKeepFiles (Join [path, fst e]) (snd e))"

text \<open>
  Notions for the proofs about paths: a plain name is one path element that \<^verbatim>\<open>Clean\<close> keeps
  as it is; \<open>walkPath\<close> is the path that the walk computes for the node reached from \<open>path\<close>
  by a list of names; \<open>render\<close> is the last step of \<^verbatim>\<open>Clean\<close>, and a normal stack is what
  \<^verbatim>\<open>Clean\<close> can have written: leading \<^verbatim>\<open>..\<close> elements, none in a rooted path, then plain
  names. \<open>resolveStep\<close> is the step function of \<open>resolve\<close>.
\<close>

definition plain :: "string \<Rightarrow> bool" where
  "plain n \<longleftrightarrow> n \<noteq> [] \<and> CHR ''/'' \<notin> set n \<and> n \<noteq> ''.'' \<and> n \<noteq> ''..''"

fun walkPath :: "string \<Rightarrow> string list \<Rightarrow> string" where
  "walkPath path [] = path"
| "walkPath path (n # ns) = walkPath (Join [path, n]) ns"

definition render :: "bool \<Rightarrow> string list \<Rightarrow> string" where
  "render rooted out =
     (let s = (if rooted then ''/'' else []) @ strings_Join out ''/''
      in if s = [] then ''.'' else s)"

definition normalStack :: "bool \<Rightarrow> string list \<Rightarrow> bool" where
  "normalStack rooted out \<longleftrightarrow>
     (\<exists>k rs. out = replicate k ''..'' @ rs \<and> (rooted \<longrightarrow> k = 0) \<and> (\<forall>e \<in> set rs. plain e))"

definition resolveStep :: "string list \<Rightarrow> string \<Rightarrow> string list" where
  "resolveStep out e =
     (if e = [] \<or> e = ''.'' then out else if e = ''..'' then butlast out else out @ [e])"

text \<open>
  The end-to-end scenario of the specification: its catalog, the tree with the stale stream
  file, and a configuration with the roots \<^verbatim>\<open>tvshows\<close> and \<^verbatim>\<open>movies\<close>, the documented limit
  of 25 deletions and no grouping.
\<close>

definition scenarioConfig :: Config where
  "scenarioConfig =
     \<lparr>TvShowsDir = ''tvshows'', MoviesDir = ''movies'', LimitDelete = 25, UseGroup = 0,
      DefaultGroup = ''Dummy'', ExcludeGroup = [], IncludeGroup = []\<rparr>"

definition scenarioCatalog :: "Stream list" where
  "scenarioCatalog =
     [\<lparr>URL = ''http://x/a.mkv'', TvgName = ''Show.S01E01'', GroupTitle = []\<rparr>,
      \<lparr>URL = ''http://x/b.avi'', TvgName = ''Old.Movie'', GroupTitle = []\<rparr>]"

definition scenarioTree :: node where
  "scenarioTree =
     Dir [(''movies'',
           Dir [(''Stale_Movie'', Dir [(''Stale_Movie.strm'', File ''http://x/stale.mkv'')])])]"

section \<open>Facts about the string functions\<close>

lemma TrimRightFunc_Nil [simp]: "TrimRightFunc [] f = []"
  by (simp add: TrimRightFunc_def)

lemma TrimRightFunc_Cons:
  "TrimRightFunc (x # xs) f = (if TrimRightFunc xs f = [] \<and> f x then [] else x # TrimRightFunc xs f)"
  by (auto simp: TrimRightFunc_def dropWhile_append)

lemma TrimRightFunc_set: "set (TrimRightFunc xs f) \<subseteq> set xs"
  by (induction xs) (auto simp: TrimRightFunc_Cons)

lemma TrimRightFunc_hd: "TrimRightFunc xs f \<noteq> [] \<Longrightarrow> hd (TrimRightFunc xs f) = hd xs"
  by (cases xs) (auto simp: TrimRightFunc_Cons split: if_splits)

lemma TrimRightFunc_last: "TrimRightFunc xs f \<noteq> [] \<Longrightarrow> \<not> f (last (TrimRightFunc xs f))"
  unfolding TrimRightFunc_def using hd_dropWhile[of f "rev xs"] by (simp add: last_rev)

lemma TrimRightFunc_id: "xs = [] \<or> \<not> f (last xs) \<Longrightarrow> TrimRightFunc xs f = xs"
  unfolding TrimRightFunc_def by (cases xs rule: rev_cases) auto

lemma TrimSpace_id:
  "s = [] \<or> (\<not> isSpace (hd s) \<and> \<not> isSpace (last s)) \<Longrightarrow> TrimSpace s = s"
  by (cases s) (auto simp: TrimSpace_def TrimLeftFunc_def intro: TrimRightFunc_id)

lemma TrimSpace_hd: "TrimSpace s \<noteq> [] \<Longrightarrow> \<not> isSpace (hd (TrimSpace s))"
  unfolding TrimSpace_def TrimLeftFunc_def
  using TrimRightFunc_hd[of "dropWhile isSpace s" isSpace] hd_dropWhile[of isSpace s]
  by (metis TrimRightFunc_Nil)

lemma TrimSpace_last: "TrimSpace s \<noteq> [] \<Longrightarrow> \<not> isSpace (last (TrimSpace s))"
  unfolding TrimSpace_def by (rule TrimRightFunc_last)

lemma TrimSpace_set: "set (TrimSpace s) \<subseteq> set s"
  unfolding TrimSpace_def TrimLeftFunc_def
  using TrimRightFunc_set[of "dropWhile isSpace s" isSpace] set_dropWhileD[of _ isSpace s]
  by blast

lemma ReplaceAll_absent: "old \<noteq> [] \<Longrightarrow> hd old \<notin> set s \<Longrightarrow> ReplaceAll s old new = s"
proof (induction s)
  case Nil
  then show ?case by (simp add: ReplaceAll.simps)
next
  case (Cons c cs)
  from Cons.prems have "\<not> prefix old (c # cs)"
    by (cases old) auto
  with Cons show ?case
    by (subst ReplaceAll.simps) simp
qed

lemma ReplaceAll_set: "set (ReplaceAll s old new) \<subseteq> set s \<union> set new"
proof (induction s old new rule: ReplaceAll.induct)
  case (1 s old new)
  show ?case
  proof (cases "old = []")
    case True
    then show ?thesis by (subst ReplaceAll.simps) auto
  next
    case False
    show ?thesis
    proof (cases s)
      case Nil
      with False show ?thesis by (subst ReplaceAll.simps) simp
    next
      case (Cons c cs)
      show ?thesis
      proof (cases "prefix old s")
        case True
        from "1.IH"(1)[OF False Cons True] set_drop_subset[of "length old" s]
        have "set (ReplaceAll (drop (length old) s) old new) \<subseteq> set s \<union> set new" by blast
        with False Cons True show ?thesis by (subst ReplaceAll.simps) auto
      next
        case np: False
        from "1.IH"(2)[OF False Cons np] False Cons np show ?thesis
          by (subst ReplaceAll.simps) auto
      qed
    qed
  qed
qed

lemma ReplaceAll_char_gone: "c \<notin> set new \<Longrightarrow> c \<notin> set (ReplaceAll s [c] new)"
proof (induction s)
  case Nil
  then show ?case by (simp add: ReplaceAll.simps)
next
  case (Cons a s)
  then show ?case by (subst ReplaceAll.simps) auto
qed

lemma ReplaceAll_hd:
  "old \<noteq> [] \<Longrightarrow> new \<noteq> [] \<Longrightarrow> s \<noteq> [] \<Longrightarrow>
   ReplaceAll s old new \<noteq> [] \<and>
   (hd (ReplaceAll s old new) = hd s \<or> hd (ReplaceAll s old new) = hd new)"
  by (cases s) (auto simp: ReplaceAll.simps[of "_ # _"])

lemma last_not: "c \<notin> set y \<Longrightarrow> y \<noteq> [] \<Longrightarrow> last y \<noteq> c"
  using last_in_set[of y] by auto

section \<open>Facts about the Name Sanitizer\<close>

lemma invalid_replace_set:
  "set (invalidChars_ReplaceAllString name ''_'') \<inter> invalidChars = {}"
  by (induction name) (auto simp: invalidChars_ReplaceAllString_def invalidChars_def)

lemma invalid_replace_id:
  "set s \<inter> invalidChars = {} \<Longrightarrow> invalidChars_ReplaceAllString s repl = s"
  by (induction s) (auto simp: invalidChars_ReplaceAllString_def)

lemma sanitize_stages:
  "sanitizeFileName name =
     TrimRight (ReplaceAll (ReplaceAll
       (TrimRight (TrimSpace (invalidChars_ReplaceAllString name ''_'')) ''_.:'')
       ''..'' ''.'') ''.'' ''_'') '' ''"
  by (simp add: sanitizeFileName_def Let_def)

lemma trimmed_clean:
  "set (TrimRight (TrimSpace (invalidChars_ReplaceAllString name ''_'')) ''_.:'') \<inter> invalidChars = {}"
  unfolding TrimRight_def
  using invalid_replace_set[of name] TrimSpace_set[of "invalidChars_ReplaceAllString name ''_''"]
    TrimRightFunc_set[of "TrimSpace (invalidChars_ReplaceAllString name ''_'')" "\<lambda>c. c \<in> set ''_.:''"]
  by blast

lemma trimmed_hd:
  "TrimRight (TrimSpace (invalidChars_ReplaceAllString name ''_'')) ''_.:'' \<noteq> [] \<Longrightarrow>
   \<not> isSpace (hd (TrimRight (TrimSpace (invalidChars_ReplaceAllString name ''_'')) ''_.:''))"
  unfolding TrimRight_def
  using TrimRightFunc_hd[of "TrimSpace (invalidChars_ReplaceAllString name ''_'')" "\<lambda>c. c \<in> set ''_.:''"]
    TrimSpace_hd[of "invalidChars_ReplaceAllString name ''_''"]
  by (metis TrimRightFunc_Nil)

lemma sanitize_clean: "set (sanitizeFileName name) \<inter> invalidChars = {}"
proof -
  let ?a = "TrimRight (TrimSpace (invalidChars_ReplaceAllString name ''_'')) ''_.:''"
  have dot: "CHR ''.'' \<notin> invalidChars" and us: "CHR ''_'' \<notin> invalidChars"
    by (simp_all add: invalidChars_def)
  have "set (ReplaceAll ?a ''..'' ''.'') \<subseteq> set ?a \<union> {CHR ''.''}"
    using ReplaceAll_set[of ?a "''..''" "''.''"] by simp
  moreover have "set (ReplaceAll (ReplaceAll ?a ''..'' ''.'') ''.'' ''_'')
      \<subseteq> set (ReplaceAll ?a ''..'' ''.'') \<union> {CHR ''_''}"
    using ReplaceAll_set[of "ReplaceAll ?a ''..'' ''.''" "''.''" "''_''"] by simp
  moreover have "set (sanitizeFileName name)
      \<subseteq> set (ReplaceAll (ReplaceAll ?a ''..'' ''.'') ''.'' ''_'')"
    unfolding sanitize_stages TrimRight_def by (rule TrimRightFunc_set)
  ultimately show ?thesis using trimmed_clean[of name] dot us by blast
qed

lemma sanitize_no_dot: "CHR ''.'' \<notin> set (sanitizeFileName name)"
proof -
  let ?a = "TrimRight (TrimSpace (invalidChars_ReplaceAllString name ''_'')) ''_.:''"
  have "CHR ''.'' \<notin> set (ReplaceAll (ReplaceAll ?a ''..'' ''.'') ''.'' ''_'')"
    using ReplaceAll_char_gone[of "CHR ''.''" "''_''"] by simp
  moreover have "set (sanitizeFileName name)
      \<subseteq> set (ReplaceAll (ReplaceAll ?a ''..'' ''.'') ''.'' ''_'')"
    unfolding sanitize_stages TrimRight_def by (rule TrimRightFunc_set)
  ultimately show ?thesis by blast
qed

lemma sanitize_no_colon: "CHR '':'' \<notin> set (sanitizeFileName name)"
  using sanitize_clean[of name] by (auto simp: invalidChars_def)

lemma sanitize_no_slash: "CHR ''/'' \<notin> set (sanitizeFileName name)"
  using sanitize_clean[of name] by (auto simp: invalidChars_def)

lemma sanitize_hd: "sanitizeFileName name \<noteq> [] \<Longrightarrow> \<not> isSpace (hd (sanitizeFileName name))"
proof -
  assume ne: "sanitizeFileName name \<noteq> []"
  let ?a = "TrimRight (TrimSpace (invalidChars_ReplaceAllString name ''_'')) ''_.:''"
  let ?b = "ReplaceAll ?a ''..'' ''.''"
  let ?c = "ReplaceAll ?b ''.'' ''_''"
  have san: "sanitizeFileName name = TrimRightFunc ?c (\<lambda>c. c \<in> set '' '')"
    by (simp add: sanitize_stages TrimRight_def)
  have a: "?a \<noteq> []"
  proof
    assume "?a = []"
    then have "sanitizeFileName name = []"
      by (simp add: sanitize_stages TrimRight_def ReplaceAll.simps)
    with ne show False by simp
  qed
  from ReplaceAll_hd[of "''..''" "''.''" ?a] a
  have b: "?b \<noteq> []" "hd ?b = hd ?a \<or> hd ?b = CHR ''.''" by simp_all
  from ReplaceAll_hd[of "''.''" "''_''" ?b] b
  have c: "hd ?c = hd ?b \<or> hd ?c = CHR ''_''" by simp
  have "hd (sanitizeFileName name) = hd ?c"
    using ne unfolding san by (rule TrimRightFunc_hd)
  with b c trimmed_hd[OF a] show ?thesis by (auto simp: isSpace_def)
qed

lemma sanitize_last_space:
  "sanitizeFileName name \<noteq> [] \<Longrightarrow> last (sanitizeFileName name) \<noteq> CHR '' ''"
  unfolding sanitize_stages TrimRight_def
  using TrimRightFunc_last[of _ "\<lambda>c. c \<in> set '' ''"] by fastforce

lemma sanitize_fixed:
  assumes clean: "set y \<inter> invalidChars = {}" and dot: "CHR ''.'' \<notin> set y"
    and hd: "y = [] \<or> \<not> isSpace (hd y)"
    and lst: "y = [] \<or> (last y \<noteq> CHR ''_'' \<and> \<not> isSpace (last y))"
  shows "sanitizeFileName y = y"
proof -
  have colon: "CHR '':'' \<notin> set y" using clean by (auto simp: invalidChars_def)
  have 1: "invalidChars_ReplaceAllString y ''_'' = y" using clean by (rule invalid_replace_id)
  have 2: "TrimSpace y = y" using hd lst by (intro TrimSpace_id) auto
  have 3: "TrimRight y ''_.:'' = y"
    unfolding TrimRight_def
  proof (rule TrimRightFunc_id)
    show "y = [] \<or> last y \<notin> set ''_.:''"
      using lst last_not[OF dot] last_not[OF colon] by auto
  qed
  have 4: "ReplaceAll y ''..'' ''.'' = y" using dot by (intro ReplaceAll_absent) simp_all
  have 5: "ReplaceAll y ''.'' ''_'' = y" using dot by (intro ReplaceAll_absent) simp_all
  have 6: "TrimRight y '' '' = y"
    unfolding TrimRight_def
  proof (rule TrimRightFunc_id)
    show "y = [] \<or> last y \<notin> set '' ''"
      using lst by (auto simp: isSpace_def)
  qed
  show ?thesis by (simp add: sanitizeFileName_def Let_def 1 2 3 4 5 6)
qed

lemma normalize_fixed:
  assumes dot: "CHR ''.'' \<notin> set y"
    and ends: "y = [] \<or> (\<not> isSpace (hd y) \<and> \<not> isSpace (last y))"
  shows "normalizeName y = y"
proof -
  have 1: "ReplaceAll y ''...'' [] = y" using dot by (intro ReplaceAll_absent) simp_all
  have 2: "ReplaceAll y ''..'' [] = y" using dot by (intro ReplaceAll_absent) simp_all
  have 3: "ReplaceAll y ''.'' '' '' = y" using dot by (intro ReplaceAll_absent) simp_all
  have 4: "TrimSpace y = y" using ends by (rule TrimSpace_id)
  show ?thesis by (simp add: normalizeName_def Let_def 1 2 3 4)
qed

lemma normalize_no_dot: "CHR ''.'' \<notin> set (normalizeName name)"
proof -
  let ?s = "ReplaceAll (ReplaceAll (ReplaceAll name ''...'' []) ''..'' []) ''.'' '' ''"
  have "CHR ''.'' \<notin> set ?s"
    using ReplaceAll_char_gone[of "CHR ''.''" "'' ''"] by simp
  moreover have "set (normalizeName name) \<subseteq> set ?s"
    unfolding normalizeName_def Let_def by (rule TrimSpace_set)
  ultimately show ?thesis by blast
qed

lemma normalize_ends:
  "normalizeName name = [] \<or>
   (\<not> isSpace (hd (normalizeName name)) \<and> \<not> isSpace (last (normalizeName name)))"
  unfolding normalizeName_def Let_def using TrimSpace_hd TrimSpace_last by blast

section \<open>Sanitizer idempotence\<close>

text \<open>
  Claim C6, as stated, fails: the sanitizer for file names is not idempotent, and neither is
  the two-stage transform. From \<^verbatim>\<open>"a_ ."\<close> the sanitizer makes \<^verbatim>\<open>"a_"\<close> (the trailing period
  goes first, the blank it uncovers goes last, the underscore stays), and from \<^verbatim>\<open>"a_"\<close> it
  makes \<^verbatim>\<open>"a"\<close>. The two-stage transform does the same from \<^verbatim>\<open>"a_ :"\<close>.
\<close>

theorem C6_sanitize_not_idempotent:
  "sanitizeFileName (sanitizeFileName ''a_ .'') \<noteq> sanitizeFileName ''a_ .'' \<and>
   sanitizeFileName (normalizeName (sanitizeFileName (normalizeName ''a_ :''))) \<noteq>
     sanitizeFileName (normalizeName ''a_ :'')"
  by code_simp

text \<open>
  Claim C6, amended: normalizing is idempotent on every input; sanitizing for the file
  system, and normalizing then sanitizing, are idempotent on every input whose output is
  empty or ends in a character that is neither an underscore nor white space.
\<close>

theorem C6_idempotent_amended:
  "normalizeName (normalizeName x) = normalizeName x \<and>
   ((sanitizeFileName x = [] \<or>
      (last (sanitizeFileName x) \<noteq> CHR ''_'' \<and> \<not> isSpace (last (sanitizeFileName x)))) \<longrightarrow>
     sanitizeFileName (sanitizeFileName x) = sanitizeFileName x) \<and>
   ((sanitizeFileName (normalizeName x) = [] \<or>
      (last (sanitizeFileName (normalizeName x)) \<noteq> CHR ''_'' \<and>
       \<not> isSpace (last (sanitizeFileName (normalizeName x))))) \<longrightarrow>
     sanitizeFileName (normalizeName (sanitizeFileName (normalizeName x))) =
       sanitizeFileName (normalizeName x))"
proof (intro conjI impI)
  show "normalizeName (normalizeName x) = normalizeName x"
    using normalize_no_dot normalize_ends by (rule normalize_fixed)
next
  assume "sanitizeFileName x = [] \<or>
      (last (sanitizeFileName x) \<noteq> CHR ''_'' \<and> \<not> isSpace (last (sanitizeFileName x)))"
  with sanitize_clean[of x] sanitize_no_dot[of x] sanitize_hd[of x]
  show "sanitizeFileName (sanitizeFileName x) = sanitizeFileName x"
    by (intro sanitize_fixed) auto
next
  let ?y = "sanitizeFileName (normalizeName x)"
  assume a: "?y = [] \<or> (last ?y \<noteq> CHR ''_'' \<and> \<not> isSpace (last ?y))"
  have n: "normalizeName ?y = ?y"
    using sanitize_no_dot[of "normalizeName x"] sanitize_hd[of "normalizeName x"] a
    by (intro normalize_fixed) auto
  have "sanitizeFileName ?y = ?y"
    using sanitize_clean[of "normalizeName x"] sanitize_no_dot[of "normalizeName x"]
      sanitize_hd[of "normalizeName x"] a
    by (intro sanitize_fixed) auto
  with n show "sanitizeFileName (normalizeName ?y) = ?y" by simp
qed

theorem C6_idempotent_amended_witness:
  "normalizeName (normalizeName ''Show.Name'') = ''Show Name'' \<and>
   sanitizeFileName ''Show Name'' = ''Show Name'' \<and>
   sanitizeFileName (sanitizeFileName ''Show Name'') = ''Show Name'' \<and>
   sanitizeFileName (normalizeName ''Show.Name'') = ''Show Name'' \<and>
   sanitizeFileName (normalizeName (sanitizeFileName (normalizeName ''Show.Name''))) = ''Show Name''"
proof -
  have n: "normalizeName ''Show.Name'' = ''Show Name''" by code_simp
  have s: "sanitizeFileName ''Show Name'' = ''Show Name''" by code_simp
  have e: "\<not> isSpace CHR ''e''" by (simp add: isSpace_def)
  from C6_idempotent_amended[of "''Show Name''"] C6_idempotent_amended[of "''Show.Name''"] n s e
  show ?thesis by simp
qed

section \<open>The end of a sanitized name\<close>

text \<open>
  Claim C10, as stated, fails for the underscore: the sanitized form of \<^verbatim>\<open>"a_ ."\<close> is \<^verbatim>\<open>"a_"\<close>.
\<close>

theorem C10_trailing_underscore:
  "\<not> (sanitizeFileName ''a_ .'' = [] \<or>
      last (sanitizeFileName ''a_ .'') \<notin> {CHR ''_'', CHR ''.'', CHR '':'', CHR '' ''})"
  by code_simp

text \<open>
  Claim C10, amended: for every input, the output of the sanitizer is empty or ends in a
  character that is none of period, colon or space.
\<close>

theorem C10_sanitized_end:
  "sanitizeFileName x = [] \<or> last (sanitizeFileName x) \<notin> {CHR ''.'', CHR '':'', CHR '' ''}"
  using last_not[OF sanitize_no_dot[of x]] last_not[OF sanitize_no_colon[of x]]
    sanitize_last_space[of x]
  by auto

theorem C10_sanitized_end_witness:
  "sanitizeFileName ''a. :'' = ''a_'' \<and>
   last (sanitizeFileName ''a. :'') \<notin> {CHR ''.'', CHR '':'', CHR '' ''}"
proof -
  have v: "sanitizeFileName ''a. :'' = ''a_''" by code_simp
  from C10_sanitized_end[of "''a. :''"] v show ?thesis by simp
qed

section \<open>The season of an episode\<close>

text \<open>
  Claim C7: the season is the first three characters of the first marker, and has the
  format \<^verbatim>\<open>Sxx\<close>. The code takes the first three characters, and its comment says that this
  extracts \<^verbatim>\<open>"Sxx"\<close>; but the expression admits a season of one digit, and then the three
  characters are \<^verbatim>\<open>S\<close>, the digit and \<^verbatim>\<open>E\<close>. For the display name \<^verbatim>\<open>Show.S1E2\<close> the season
  is \<^verbatim>\<open>S1E\<close> and the directory of the episode is \<^verbatim>\<open>tvshows/Show/S1E\<close>.
\<close>

theorem C7_season_of_one_digit:
  "kindOf \<lparr>URL = ''http://x/a.mkv'', TvgName = ''Show.S1E2'', GroupTitle = []\<rparr> = TVEpisode \<and>
   FindString ''Show.S1E2'' = ''S1E2'' \<and>
   seasonOf ''Show.S1E2'' = ''S1E'' \<and>
   \<not> isDigit (seasonOf ''Show.S1E2'' ! 2) \<and>
   targetDir (globalsOf scenarioConfig)
     \<lparr>URL = ''http://x/a.mkv'', TvgName = ''Show.S1E2'', GroupTitle = []\<rparr> = ''tvshows/Show/S1E''"
  unfolding scenarioConfig_def by code_simp

section \<open>Episodes with an empty show name\<close>

lemma mkdirAll_empty: "\<exists>n. mkdirAll cs (Dir []) = Inr n"
  by (induction cs) auto

lemma mkdirAll_after_ENOENT: "lookup cs n = Inl ENOENT \<Longrightarrow> \<exists>n'. mkdirAll cs n = Inr n'"
proof (induction cs n rule: lookup.induct)
  case (1 n)
  then show ?case by simp
next
  case (2 c cs x)
  then show ?case by simp
next
  case (3 c cs es)
  show ?case
  proof (cases "map_of es c")
    case None
    with mkdirAll_empty[of cs] show ?thesis by auto
  next
    case (Some d)
    with 3 show ?thesis by auto
  qed
qed

lemma Clean_nonempty: "Clean p \<noteq> []"
  by (simp add: Clean_def Let_def)

lemma Join_nonempty: "\<exists>e \<in> set elem. e \<noteq> [] \<Longrightarrow> Join elem \<noteq> []"
  by (auto simp: Join_def Let_def Clean_nonempty dropWhile_eq_Nil_conv)

lemma ensureDir_Some:
  "dir \<noteq> [] \<Longrightarrow>
   \<exists>st'. ensureDir dir st = Some st' \<and> keepFiles st' = keepFiles st \<and>
     keptStrmFiles st' = keptStrmFiles st"
  using mkdirAll_after_ENOENT[of "resolve dir" "fs st"]
  by (auto simp: ensureDir_def Stat_def MkdirAll_def Let_def split: sum.splits)

lemma keepStrmFile_keep: "keepFiles (keepStrmFile p url st) = insert p (keepFiles st)"
  by (simp add: keepStrmFile_def createOrUpdateStrmFile_def Let_def split: sum.splits)

lemma keepStrmFile_kept: "keptStrmFiles (keepStrmFile p url st) = keptStrmFiles st + 1"
  by (simp add: keepStrmFile_def createOrUpdateStrmFile_def Let_def split: sum.splits)

lemma showDirOf_nonempty: "FindString name \<noteq> [] \<Longrightarrow> showDirOf G tvDir g name \<noteq> []"
  by (auto simp: showDirOf_def seasonOf_def intro!: Join_nonempty)

text \<open>
  Claim C8, as stated, fails: a record whose display name is the marker alone, \<^verbatim>\<open>S01E01\<close>, has
  an empty show name and is not rejected. Its directory \<^verbatim>\<open>tvshows/S01\<close> is created, its stream
  file is written and kept, and nothing is logged but the creation.
\<close>

theorem C8_empty_prefix_materialized:
  "showNameOf ''S01E01'' = [] \<and>
   processStream (globalsOf scenarioConfig)
     \<lparr>URL = ''http://x/a.mkv'', TvgName = ''S01E01'', GroupTitle = []\<rparr> (initial (Dir [])) =
   \<lparr>fs = Dir [(''tvshows'', Dir [(''S01'', Dir [(''S01E01.strm'', File ''http://x/a.mkv'')])])],
    keepFiles = {''tvshows/S01/S01E01.strm''}, createdDirs = 1, keptStrmFiles = 1,
    removedStrmFiles = 0, removedEmptyDirs = 0, deletions = 0,
    logged = [CreatingDirectory ''tvshows/S01'']\<rparr>"
  unfolding scenarioConfig_def by code_simp

text \<open>
  Claim C8, amended: the per-record error of the television path is a display name in which
  no marker is found: it is logged and the record is dropped, with no directory, no file and
  no entry in KeepSet. A record whose display name has a marker is never rejected for the
  text before it: also when that text sanitizes to the empty string, the path of its stream
  file is added to KeepSet and the record is counted as kept.
\<close>

theorem C8_rejection_amended:
  "(FindString (TvgName stream) = [] \<longrightarrow>
      processTVShow G stream tvDir g st =
        st\<lparr>logged := logged st @ [InvalidTVShowNameFormat (TvgName stream)]\<rparr>) \<and>
   (FindString (TvgName stream) \<noteq> [] \<longrightarrow>
      keepFiles (processTVShow G stream tvDir g st) =
        insert (strmFilePathOf (showDirOf G tvDir g (TvgName stream)) (TvgName stream)) (keepFiles st) \<and>
      keptStrmFiles (processTVShow G stream tvDir g st) = keptStrmFiles st + 1)"
proof (intro conjI impI)
  assume "FindString (TvgName stream) = []"
  then show "processTVShow G stream tvDir g st =
        st\<lparr>logged := logged st @ [InvalidTVShowNameFormat (TvgName stream)]\<rparr>"
    by (simp add: processTVShow_def)
next
  assume m: "FindString (TvgName stream) \<noteq> []"
  from ensureDir_Some[OF showDirOf_nonempty[OF m], of G tvDir g st]
  obtain st' where e: "ensureDir (showDirOf G tvDir g (TvgName stream)) st = Some st'"
    "keepFiles st' = keepFiles st" "keptStrmFiles st' = keptStrmFiles st" by blast
  with m show "keepFiles (processTVShow G stream tvDir g st) =
        insert (strmFilePathOf (showDirOf G tvDir g (TvgName stream)) (TvgName stream)) (keepFiles st)"
    by (simp add: processTVShow_def Let_def keepStrmFile_keep)
  from e m show "keptStrmFiles (processTVShow G stream tvDir g st) = keptStrmFiles st + 1"
    by (simp add: processTVShow_def Let_def keepStrmFile_kept)
qed


theorem C8_rejection_amended_witness:
  "FindString ''Old.Movie'' = [] \<and>
   processTVShow (globalsOf scenarioConfig)
     \<lparr>URL = ''http://x/b.avi'', TvgName = ''Old.Movie'', GroupTitle = []\<rparr> ''tvshows'' ''Dummy''
     (initial (Dir [])) =
     (initial (Dir []))\<lparr>logged := [InvalidTVShowNameFormat ''Old.Movie'']\<rparr> \<and>
   FindString ''S01E01'' \<noteq> [] \<and>
   keepFiles (processTVShow (globalsOf scenarioConfig)
     \<lparr>URL = ''http://x/a.mkv'', TvgName = ''S01E01'', GroupTitle = []\<rparr> ''tvshows'' ''Dummy''
     (initial (Dir []))) = {''tvshows/S01/S01E01.strm''}"
proof -
  have a: "FindString ''Old.Movie'' = []" by code_simp
  have b: "FindString ''S01E01'' \<noteq> []" by code_simp
  have p: "strmFilePathOf (showDirOf (globalsOf scenarioConfig) ''tvshows'' ''Dummy'' ''S01E01'')
      ''S01E01'' = ''tvshows/S01/S01E01.strm''"
    unfolding scenarioConfig_def by code_simp
  from C8_rejection_amended[of "\<lparr>URL = ''http://x/b.avi'', TvgName = ''Old.Movie'', GroupTitle = []\<rparr>"
      "globalsOf scenarioConfig" "''tvshows''" "''Dummy''" "initial (Dir [])"]
    C8_rejection_amended[of "\<lparr>URL = ''http://x/a.mkv'', TvgName = ''S01E01'', GroupTitle = []\<rparr>"
      "globalsOf scenarioConfig" "''tvshows''" "''Dummy''" "initial (Dir [])"]
    a b p
  show ?thesis by (simp add: initial_def)
qed

section \<open>Path determinism\<close>

text \<open>
  Claim C5, as stated, fails for the stream file of an episode: two episodes of one season
  agree on kind, canonical name, season and group, and have one directory, but each has its
  own stream file, named after the whole display name.
\<close>

theorem C5_two_episodes:
  "kindOf \<lparr>URL = ''http://x/a.mkv'', TvgName = ''Show.S01E01'', GroupTitle = []\<rparr> =
     kindOf \<lparr>URL = ''http://x/c.mkv'', TvgName = ''Show.S01E02'', GroupTitle = []\<rparr> \<and>
   canonicalNameOf \<lparr>URL = ''http://x/a.mkv'', TvgName = ''Show.S01E01'', GroupTitle = []\<rparr> =
     canonicalNameOf \<lparr>URL = ''http://x/c.mkv'', TvgName = ''Show.S01E02'', GroupTitle = []\<rparr> \<and>
   seasonOf ''Show.S01E01'' = seasonOf ''Show.S01E02'' \<and>
   targetDir (globalsOf scenarioConfig)
       \<lparr>URL = ''http://x/a.mkv'', TvgName = ''Show.S01E01'', GroupTitle = []\<rparr> =
     targetDir (globalsOf scenarioConfig)
       \<lparr>URL = ''http://x/c.mkv'', TvgName = ''Show.S01E02'', GroupTitle = []\<rparr> \<and>
   targetFile (globalsOf scenarioConfig)
       \<lparr>URL = ''http://x/a.mkv'', TvgName = ''Show.S01E01'', GroupTitle = []\<rparr> =
     ''tvshows/Show/S01/Show S01E01.strm'' \<and>
   targetFile (globalsOf scenarioConfig)
       \<lparr>URL = ''http://x/c.mkv'', TvgName = ''Show.S01E02'', GroupTitle = []\<rparr> =
     ''tvshows/Show/S01/Show S01E02.strm''"
  unfolding scenarioConfig_def by code_simp

text \<open>
  Claim C5, amended: two records that agree on kind, canonical name, season and group label
  resolve, under one configuration, to the same target directory; they resolve to the same
  stream file as well when their sanitized display names agree, which is always so for two
  movies.
\<close>

theorem C5_path_determinism_amended:
  assumes "kindOf r1 = kindOf r2" "canonicalNameOf r1 = canonicalNameOf r2"
    "seasonOf (TvgName r1) = seasonOf (TvgName r2)" "groupTitleOf G r1 = groupTitleOf G r2"
  shows "targetDir G r1 = targetDir G r2 \<and>
    (sanitizeFileName (normalizeName (TvgName r1)) = sanitizeFileName (normalizeName (TvgName r2))
       \<longrightarrow> targetFile G r1 = targetFile G r2) \<and>
    (kindOf r1 = Movie \<longrightarrow> targetFile G r1 = targetFile G r2)"
  using assms
  by (auto simp: kindOf_def canonicalNameOf_def targetDir_def targetFile_def showDirOf_def
      movieDirOf_def strmFilePathOf_def split: if_splits)

theorem C5_path_determinism_amended_witness:
  "kindOf \<lparr>URL = ''http://x/b.avi'', TvgName = ''Old.Movie'', GroupTitle = []\<rparr> = Movie \<and>
   kindOf \<lparr>URL = ''http://y/b.mp4'', TvgName = '' Old.Movie.'', GroupTitle = '' ''\<rparr> = Movie \<and>
   targetDir (globalsOf scenarioConfig)
       \<lparr>URL = ''http://x/b.avi'', TvgName = ''Old.Movie'', GroupTitle = []\<rparr> =
     targetDir (globalsOf scenarioConfig)
       \<lparr>URL = ''http://y/b.mp4'', TvgName = '' Old.Movie.'', GroupTitle = '' ''\<rparr> \<and>
   targetFile (globalsOf scenarioConfig)
       \<lparr>URL = ''http://x/b.avi'', TvgName = ''Old.Movie'', GroupTitle = []\<rparr> =
     targetFile (globalsOf scenarioConfig)
       \<lparr>URL = ''http://y/b.mp4'', TvgName = '' Old.Movie.'', GroupTitle = '' ''\<rparr>"
proof -
  let ?r1 = "\<lparr>URL = ''http://x/b.avi'', TvgName = ''Old.Movie'', GroupTitle = []\<rparr>"
  let ?r2 = "\<lparr>URL = ''http://y/b.mp4'', TvgName = '' Old.Movie.'', GroupTitle = '' ''\<rparr>"
  have k1: "kindOf ?r1 = Movie" and k2: "kindOf ?r2 = Movie" by code_simp+
  have c: "canonicalNameOf ?r1 = canonicalNameOf ?r2" by code_simp
  have s: "seasonOf (TvgName ?r1) = seasonOf (TvgName ?r2)" by code_simp
  have g: "groupTitleOf (globalsOf scenarioConfig) ?r1 = groupTitleOf (globalsOf scenarioConfig) ?r2"
    unfolding scenarioConfig_def by code_simp
  from C5_path_determinism_amended[OF _ c s g] k1 k2 show ?thesis by simp
qed

section \<open>The pruning walk\<close>

lemma fileLoop_delta:
  "fileLoop K l p files cur st = (b, cur', st') \<Longrightarrow>
   deletions st' - removedStrmFiles st' = deletions st - removedStrmFiles st"
  by (induction K l p files cur st rule: fileLoop.induct) (auto simp: Let_def split: if_splits)

lemma walkDir_Dir_cases:
  assumes "walkDir K l r p (Dir es) st = (res, st')"
  obtains (limit) cur where "fileLoop K l p (ReadDir es) es st = (True, cur, st')"
      "res = Some (Dir cur)"
  | (removed) st1 where "fileLoop K l p (ReadDir es) es st = (False, [], st1)" "p \<noteq> r"
      "res = None"
      "st' = st1\<lparr>logged := logged st1 @ [RemovingEmptyDirectory p],
                 removedEmptyDirs := removedEmptyDirs st1 + 1\<rparr>"
  | (descend) cur st1 cur' where "fileLoop K l p (ReadDir es) es st = (False, cur, st1)"
      "\<not> (cur = [] \<and> p \<noteq> r)" "walkEntries K l r p (ReadDir cur) st1 = (cur', st')"
      "res = Some (Dir cur')"
proof -
  obtain b cur st1 where fl: "fileLoop K l p (ReadDir es) es st = (b, cur, st1)"
    by (cases "fileLoop K l p (ReadDir es) es st") auto
  obtain cur' st2 where we: "walkEntries K l r p (ReadDir cur) st1 = (cur', st2)"
    by (cases "walkEntries K l r p (ReadDir cur) st1") auto
  from assms fl we show thesis
    by (cases b; cases "cur = [] \<and> p \<noteq> r") (auto intro: limit removed descend)
qed

lemma walkEntries_Cons_cases:
  assumes "walkEntries K l r p ((name, d1) # dirs) st = (rs, st')"
  obtains x st1 ys where "walkDir K l r (Join [p, name]) d1 st = (x, st1)"
    "walkEntries K l r p dirs st1 = (ys, st')"
    "rs = (case x of None \<Rightarrow> ys | Some d \<Rightarrow> (name, d) # ys)"
proof -
  obtain x st1 where wd: "walkDir K l r (Join [p, name]) d1 st = (x, st1)"
    by (cases "walkDir K l r (Join [p, name]) d1 st") auto
  obtain ys st2 where we: "walkEntries K l r p dirs st1 = (ys, st2)"
    by (cases "walkEntries K l r p dirs st1") auto
  from assms wd we show thesis
    by (auto intro: that)
qed

lemma walk_delta:
  "walkDir K l r p d st = (res, st') \<Longrightarrow>
     deletions st' - removedStrmFiles st' = deletions st - removedStrmFiles st"
  "walkEntries K l r p ds st = (rs, st') \<Longrightarrow>
     deletions st' - removedStrmFiles st' = deletions st - removedStrmFiles st"
proof (induction K l r p d st and K l r p ds st arbitrary: res st' and rs st'
    rule: walkDir_walkEntries.induct)
  case (1 K l r p x st)
  then show ?case by simp
next
  case (2 K l r p es st)
  from "2.prems" show ?case
  proof (cases rule: walkDir_Dir_cases)
    case (limit cur)
    then show ?thesis using fileLoop_delta by blast
  next
    case (removed st1)
    with fileLoop_delta[OF removed(1)] show ?thesis by simp
  next
    case (descend cur st1 cur')
    from "2.IH"[OF descend(1)[symmetric] refl refl descend(2) descend(3)]
      fileLoop_delta[OF descend(1)]
    show ?thesis by simp
  qed
next
  case (3 K l r p st)
  then show ?case by simp
next
  case (4 K l r p name d1 dirs st)
  from "4.prems" show ?case
  proof (cases rule: walkEntries_Cons_cases)
    case (1 x st1 ys)
    from "4.IH"(1)[OF 1(1)] "4.IH"(2)[OF 1(1)[symmetric] 1(2)]
    show ?thesis by simp
  qed
qed

lemma fileLoop_sub:
  "fileLoop K l p files cur st = (b, cur', st') \<Longrightarrow> set cur' \<subseteq> set cur"
  by (induction K l p files cur st rule: fileLoop.induct)
    (auto simp: Let_def delEntry_def split: if_splits)

lemma fileLoop_keeps:
  assumes "fileLoop K l p files cur st = (b, cur', st')"
    and "distinct (map fst es)" "set files \<subseteq> set es" "set cur \<subseteq> set es"
    and "(n, d) \<in> set cur" "(q, c) \<in> filesUnder (Join [p, n]) d" "ToLower q \<in> K"
  shows "(n, d) \<in> set cur'"
  using assms
proof (induction K l p files cur st rule: fileLoop.induct)
  case (1 K l p cur st)
  then show ?case by simp
next
  case (2 K l p name entry files cur st)
  show ?case
  proof (cases "deletions st \<ge> l")
    case True
    with "2.prems" show ?thesis by simp
  next
    case False
    show ?thesis
    proof (cases "\<not> IsDir entry \<and> Ext name = ''.strm'' \<and> ToLower (Join [p, name]) \<notin> K")
      case True
      have ne: "n \<noteq> name"
      proof
        assume "n = name"
        with "2.prems" have "(name, entry) \<in> set es" "(name, d) \<in> set es" by auto
        with \<open>distinct (map fst es)\<close> have "entry = d"
          by (rule eq_key_imp_eq_value)
        with True obtain x where "d = File x" by (cases d) auto
        with "2.prems" \<open>n = name\<close> have "q = Join [p, name]" by simp
        with True "2.prems" show False by simp
      qed
      with "2.prems" have in': "(n, d) \<in> set (delEntry name cur)"
        by (auto simp: delEntry_def)
      have sub': "set (delEntry name cur) \<subseteq> set es"
        using "2.prems" by (auto simp: delEntry_def)
      from False True "2.prems"(1)
      have fl: "fileLoop K l p files (delEntry name cur)
          (st\<lparr>logged := logged st @ [RemovingStrmFile (Join [p, name])],
              removedStrmFiles := removedStrmFiles st + 1,
              deletions := deletions st + 1\<rparr>) = (b, cur', st')"
        by (simp add: Let_def)
      from False True show ?thesis
        using "2.IH"(1)[OF _ refl _ refl _ fl "2.prems"(2) _ sub' in' "2.prems"(6,7)] "2.prems"(3)
        by auto
    next
      case nodel: False
      with False "2.prems"(1) have fl: "fileLoop K l p files cur st = (b, cur', st')"
        by (auto simp: Let_def split: if_splits)
      from "2.prems"(3) have sf: "set files \<subseteq> set es" by auto
      show ?thesis
      proof (cases "\<not> IsDir entry \<and> Ext name = ''.strm''")
        case True
        with nodel have "ToLower (Join [p, name]) \<in> K" by simp
        from "2.IH"(2)[OF _ refl _ refl _ fl "2.prems"(2) sf "2.prems"(4,5,6,7)] False True this
        show ?thesis by auto
      next
        case nf: False
        from "2.IH"(3)[OF _ refl _ fl "2.prems"(2) sf "2.prems"(4,5,6,7)] False nf
        show ?thesis by auto
      qed
    qed
  qed
qed

lemma walk_keeps:
  "wellFormed d \<Longrightarrow> (q, c) \<in> filesUnder p d \<Longrightarrow> ToLower q \<in> K \<Longrightarrow>
     walkDir K l r p d st = (res, st') \<Longrightarrow>
     \<exists>d'. res = Some d' \<and> (q, c) \<in> filesUnder p d'"
  "\<forall>e \<in> set ds. wellFormed (snd e) \<Longrightarrow> (n, dn) \<in> set ds \<Longrightarrow>
     (q, c) \<in> filesUnder (Join [p, n]) dn \<Longrightarrow> ToLower q \<in> K \<Longrightarrow>
     walkEntries K l r p ds st = (rs, st') \<Longrightarrow>
     \<exists>d'. (n, d') \<in> set rs \<and> (q, c) \<in> filesUnder (Join [p, n]) d'"
proof (induction K l r p d st and K l r p ds st arbitrary: res st' and rs st' n dn
    rule: walkDir_walkEntries.induct)
  case (1 K l r p x st)
  then show ?case by auto
next
  case (2 K l r p es st)
  from "2.prems"(2) obtain n dn where e: "(n, dn) \<in> set es" "(q, c) \<in> filesUnder (Join [p, n]) dn"
    by auto
  from "2.prems"(1) have dist: "distinct (map fst es)" and wf: "\<forall>e \<in> set es. wellFormed (snd e)"
    by auto
  have keeps: "(n, dn) \<in> set cur" if "fileLoop K l p (ReadDir es) es st = (b, cur, st1)" for b cur st1
    using that dist _ _ e "2.prems"(3)
    by (rule fileLoop_keeps) (auto simp: ReadDir_def)
  from "2.prems"(4) show ?case
  proof (cases rule: walkDir_Dir_cases)
    case (limit cur)
    from keeps[OF limit(1)] e limit show ?thesis by force
  next
    case (removed st1)
    from keeps[OF removed(1)] show ?thesis by simp
  next
    case (descend cur st1 cur')
    from fileLoop_sub[OF descend(1)] wf
    have wf': "\<forall>e \<in> set (ReadDir cur). wellFormed (snd e)"
      by (auto simp: ReadDir_def)
    from keeps[OF descend(1)] have "(n, dn) \<in> set (ReadDir cur)"
      by (simp add: ReadDir_def)
    from "2.IH"[OF descend(1)[symmetric] refl refl descend(2) wf' this e(2) "2.prems"(3) descend(3)]
    obtain d' where "(n, d') \<in> set cur'" "(q, c) \<in> filesUnder (Join [p, n]) d'" by blast
    with descend show ?thesis by force
  qed
next
  case (3 K l r p st)
  then show ?case by simp
next
  case (4 K l r p name d1 dirs st)
  from "4.prems"(5) show ?case
  proof (cases rule: walkEntries_Cons_cases)
    case (1 x st1 ys)
    from "4.prems"(1) have wf1: "wellFormed d1" and wfs: "\<forall>e \<in> set dirs. wellFormed (snd e)"
      by auto
    from "4.prems"(2) consider "(n, dn) = (name, d1)" | "(n, dn) \<in> set dirs" by auto
    then show ?thesis
    proof cases
      case 1
      with "4.prems"(3) have "(q, c) \<in> filesUnder (Join [p, name]) d1" by simp
      from "4.IH"(1)[OF wf1 this "4.prems"(4) \<open>walkDir K l r (Join [p, name]) d1 st = (x, st1)\<close>]
      obtain d' where "x = Some d'" "(q, c) \<in> filesUnder (Join [p, name]) d'" by blast
      with 1 \<open>rs = (case x of None \<Rightarrow> ys | Some d \<Rightarrow> (name, d) # ys)\<close> show ?thesis by auto
    next
      case 2
      from "4.IH"(2)[OF \<open>walkDir K l r (Join [p, name]) d1 st = (x, st1)\<close>[symmetric] wfs 2
          "4.prems"(3,4) \<open>walkEntries K l r p dirs st1 = (ys, st')\<close>]
      obtain d' where "(n, d') \<in> set ys" "(q, c) \<in> filesUnder (Join [p, n]) d'" by blast
      with \<open>rs = (case x of None \<Rightarrow> ys | Some d \<Rightarrow> (name, d) # ys)\<close> show ?thesis
        by (cases x) auto
    qed
  qed
qed

lemma map_of_mapped:
  "map_of (map (\<lambda>(k, v). if k = c then (k, f v) else (k, v)) es) c = map_option f (map_of es c)"
  by (induction es) auto

lemma lookup_put: "lookup cs n = Inr d \<Longrightarrow> lookup cs (put cs (Some d') n) = Inr d'"
proof (induction cs n rule: lookup.induct)
  case (1 n)
  then show ?case by simp
next
  case (2 c cs x)
  then show ?case by simp
next
  case (3 c cs es)
  then show ?case by (auto simp: map_of_mapped split: option.splits)
qed

section \<open>What the deletion budget counts\<close>

text \<open>
  Claim C9: the budget bounds the removals of stream files only. The counter \<open>deletions\<close> of a
  walk grows exactly with the counter of removed stream files, whatever directories are
  removed; the limit is tested in the loop over the entries of a directory and nowhere
  else, so a directory without entries, other than the root, is removed at any value of the
  counter, also one at or above the limit, and leaves the counter as it is.
\<close>

theorem C9_budget_counts_stream_files:
  "deletions (removeEmptyDirs rootDir limit st) =
     removedStrmFiles (removeEmptyDirs rootDir limit st) - removedStrmFiles st \<and>
   (path \<noteq> rootDir \<longrightarrow>
      walkDir K limit rootDir path (Dir []) st1 =
        (None, st1\<lparr>logged := logged st1 @ [RemovingEmptyDirectory path],
                   removedEmptyDirs := removedEmptyDirs st1 + 1\<rparr>))"
proof (intro conjI impI)
  show "deletions (removeEmptyDirs rootDir limit st) =
     removedStrmFiles (removeEmptyDirs rootDir limit st) - removedStrmFiles st"
  proof (cases "Stat rootDir (fs st)")
    case (Inl e)
    then show ?thesis by (simp add: removeEmptyDirs_def Let_def)
  next
    case (Inr d)
    obtain res st' where w: "walkDir (ToLower ` keepFiles st) limit rootDir rootDir d (st\<lparr>deletions := 0\<rparr>) = (res, st')"
      by (cases "walkDir (ToLower ` keepFiles st) limit rootDir rootDir d (st\<lparr>deletions := 0\<rparr>)") auto
    from walk_delta(1)[OF w] Inr w show ?thesis
      by (simp add: removeEmptyDirs_def Let_def)
  qed
next
  assume "path \<noteq> rootDir"
  then show "walkDir K limit rootDir path (Dir []) st1 =
        (None, st1\<lparr>logged := logged st1 @ [RemovingEmptyDirectory path],
                   removedEmptyDirs := removedEmptyDirs st1 + 1\<rparr>)"
    by (simp add: ReadDir_def)
qed


theorem C9_witness:
  "''movies/Gone'' \<noteq> ''movies'' \<and>
   deletions ((initial (Dir []))\<lparr>deletions := 25\<rparr>) \<ge> 25 \<and>
   walkDir {} 25 ''movies'' ''movies/Gone'' (Dir []) ((initial (Dir []))\<lparr>deletions := 25\<rparr>) =
     (None, (initial (Dir []))\<lparr>deletions := 25, removedEmptyDirs := 1,
                               logged := [RemovingEmptyDirectory ''movies/Gone'']\<rparr>)"
proof -
  have ne: "''movies/Gone'' \<noteq> ''movies''" by simp
  from C9_budget_counts_stream_files[of "''movies''" 25 "initial (Dir [])" "''movies/Gone''" "{}"
      "(initial (Dir []))\<lparr>deletions := 25\<rparr>"] ne
  show ?thesis by (simp add: initial_def)
qed

section \<open>Pruning safety\<close>

text \<open>
  Claim C4: a regular file that is below the root of the walk when pruning starts, and whose
  path, as the walk computes it, equals an entry of KeepSet once both are in lower case, is
  still there with its content when \<^verbatim>\<open>removeEmptyDirs\<close> returns, whatever the limit. The tree
  below the root is one in which no directory has two entries of one name.
\<close>

theorem C4_pruning_safety:
  assumes "Stat rootDir (fs st) = Inr d" and "wellFormed d"
    and "(p, c) \<in> filesUnder rootDir d" and "ToLower p \<in> ToLower ` keepFiles st"
  shows "\<exists>d'. Stat rootDir (fs (removeEmptyDirs rootDir limit st)) = Inr d' \<and>
           (p, c) \<in> filesUnder rootDir d'"
proof -
  let ?K = "ToLower ` keepFiles st"
  obtain res st' where w: "walkDir ?K limit rootDir rootDir d (st\<lparr>deletions := 0\<rparr>) = (res, st')"
    by (cases "walkDir ?K limit rootDir rootDir d (st\<lparr>deletions := 0\<rparr>)") auto
  from walk_keeps(1)[OF assms(2,3,4) w]
  obtain d' where d': "res = Some d'" "(p, c) \<in> filesUnder rootDir d'" by blast
  from assms(1) have ne: "rootDir \<noteq> []" and l: "lookup (resolve rootDir) (fs st) = Inr d"
    by (auto simp: Stat_def split: if_splits)
  from assms(1) w d' have "fs (removeEmptyDirs rootDir limit st) = put (resolve rootDir) (Some d') (fs st)"
    by (simp add: removeEmptyDirs_def Let_def)
  with lookup_put[OF l, of d'] ne have "Stat rootDir (fs (removeEmptyDirs rootDir limit st)) = Inr d'"
    by (simp add: Stat_def)
  with d' show ?thesis by blast
qed


theorem C4_pruning_safety_witness:
  "Stat ''movies''
     (fs ((initial (Dir [(''movies'', Dir [(''Old Movie'', Dir [(''OLD MOVIE.strm'', File ''u'')])])]))
            \<lparr>keepFiles := {''movies/old movie/Old Movie.strm''}\<rparr>)) =
     Inr (Dir [(''Old Movie'', Dir [(''OLD MOVIE.strm'', File ''u'')])]) \<and>
   wellFormed (Dir [(''Old Movie'', Dir [(''OLD MOVIE.strm'', File ''u'')])]) \<and>
   (''movies/Old Movie/OLD MOVIE.strm'', ''u'') \<in>
     filesUnder ''movies'' (Dir [(''Old Movie'', Dir [(''OLD MOVIE.strm'', File ''u'')])]) \<and>
   ToLower ''movies/Old Movie/OLD MOVIE.strm'' \<in> ToLower ` {''movies/old movie/Old Movie.strm''} \<and>
   (\<exists>d'. Stat ''movies''
       (fs (removeEmptyDirs ''movies'' 25
         ((initial (Dir [(''movies'', Dir [(''Old Movie'', Dir [(''OLD MOVIE.strm'', File ''u'')])])]))
            \<lparr>keepFiles := {''movies/old movie/Old Movie.strm''}\<rparr>))) = Inr d' \<and>
     (''movies/Old Movie/OLD MOVIE.strm'', ''u'') \<in> filesUnder ''movies'' d')"
proof -
  let ?d = "Dir [(''Old Movie'', Dir [(''OLD MOVIE.strm'', File ''u'')])]"
  let ?st = "(initial (Dir [(''movies'', ?d)]))\<lparr>keepFiles := {''movies/old movie/Old Movie.strm''}\<rparr>"
  have 1: "Stat ''movies'' (fs ?st) = Inr ?d" by code_simp
  have 2: "wellFormed ?d" by code_simp
  have 3: "(''movies/Old Movie/OLD MOVIE.strm'', ''u'') \<in> filesUnder ''movies'' ?d" by code_simp
  have 4: "ToLower ''movies/Old Movie/OLD MOVIE.strm'' \<in> ToLower ` {''movies/old movie/Old Movie.strm''}"
    by code_simp
  have 5: "ToLower ''movies/Old Movie/OLD MOVIE.strm'' \<in> ToLower ` keepFiles ?st"
    using 4 by (simp add: initial_def)
  from C4_pruning_safety[OF 1 2 3 5, of 25] 1 2 3 4 show ?thesis by blast
qed

section \<open>The end-to-end scenario\<close>

text \<open>
  Claim C1, as stated, fails in the names: the normalizer turns the periods of a display
  name into blanks and the sanitizer leaves blanks alone, so there is no file
  \<^verbatim>\<open>tvshows/Show/S01/Show_S01E01.strm\<close> and no file \<^verbatim>\<open>movies/Old_Movie/Old_Movie.strm\<close> after
  the run.
\<close>

theorem C1_underscore_paths_absent:
  "\<not> (Stat ''tvshows/Show/S01/Show_S01E01.strm'' (fs (main scenarioConfig scenarioCatalog scenarioTree)) =
        Inr (File ''http://x/a.mkv'') \<and>
      Stat ''movies/Old_Movie/Old_Movie.strm'' (fs (main scenarioConfig scenarioCatalog scenarioTree)) =
        Inr (File ''http://x/b.avi'') \<and>
      Stat ''movies/Stale_Movie'' (fs (main scenarioConfig scenarioCatalog scenarioTree)) = Inl ENOENT)"
  unfolding scenarioConfig_def scenarioCatalog_def scenarioTree_def by code_simp

text \<open>
  Claim C1, amended: after one run the file \<^verbatim>\<open>tvshows/Show/S01/Show S01E01.strm\<close> exists with
  the content \<^verbatim>\<open>http://x/a.mkv\<close>, the file \<^verbatim>\<open>movies/Old Movie/Old Movie.strm\<close> exists with the
  content \<^verbatim>\<open>http://x/b.avi\<close>, and the directory \<^verbatim>\<open>movies/Stale_Movie\<close> no longer exists: its file
  was removed first, then the empty directory.
\<close>

theorem C1_scenario_amended:
  "Stat ''tvshows/Show/S01/Show S01E01.strm'' (fs (main scenarioConfig scenarioCatalog scenarioTree)) =
     Inr (File ''http://x/a.mkv'') \<and>
   Stat ''movies/Old Movie/Old Movie.strm'' (fs (main scenarioConfig scenarioCatalog scenarioTree)) =
     Inr (File ''http://x/b.avi'') \<and>
   Stat ''movies/Stale_Movie'' (fs (main scenarioConfig scenarioCatalog scenarioTree)) = Inl ENOENT \<and>
   logged (main scenarioConfig scenarioCatalog scenarioTree) =
     [CreatingDirectory ''tvshows/Show/S01'', CreatingDirectory ''movies/Old Movie'',
      RemovingStrmFile ''movies/Stale_Movie/Stale_Movie.strm'',
      RemovingEmptyDirectory ''movies/Stale_Movie'']"
  unfolding scenarioConfig_def scenarioCatalog_def scenarioTree_def by code_simp

section \<open>The deletion budget of a run\<close>

text \<open>
  Claim C3: with a limit of \<open>L\<close> and more than \<open>L\<close> stale stream files, a run deletes exactly
  \<open>L\<close>. The code counts per walk, not per run: \<^verbatim>\<open>removeEmptyDirs\<close> starts its counter at zero
  for each of the two roots. With a limit of one and one stale stream file in either root,
  the run deletes both.
\<close>

theorem C3_two_deletions_at_limit_one:
  "removedStrmFiles
     (main (scenarioConfig\<lparr>LimitDelete := 1\<rparr>) []
        (Dir [(''movies'', Dir [(''a.strm'', File ''http://x/a.mkv'')]),
              (''tvshows'', Dir [(''b.strm'', File ''http://x/b.mkv'')])])) = 2 \<and>
   fs (main (scenarioConfig\<lparr>LimitDelete := 1\<rparr>) []
        (Dir [(''movies'', Dir [(''a.strm'', File ''http://x/a.mkv'')]),
              (''tvshows'', Dir [(''b.strm'', File ''http://x/b.mkv'')])])) =
     Dir [(''movies'', Dir []), (''tvshows'', Dir [])]"
  unfolding scenarioConfig_def by code_simp

end
